theory Spec2Isabelle
  imports Complex_Main
begin

section \<open>Configuration (config.py)\<close>

definition CITY :: string where
  "CITY = ''Skopje''"

definition TEST_SIZE :: real where
  "TEST_SIZE = 0.2"

definition FEATURE_COLUMNS :: "string list" where
  "FEATURE_COLUMNS =
     [''pm25'', ''pm25_lag_1'', ''pm25_lag_2'', ''pm25_lag_7'',
      ''pm25_rolling_3'', ''pm25_rolling_7'', ''day_of_week'', ''month'']"

definition TARGET_COLUMN :: string where
  "TARGET_COLUMN = ''pm25_next_day''"

section \<open>Values, errors and the numeric built-ins\<close>

text \<open>
  Floating-point numbers are idealised as real numbers; the one non-number a column can
  hold, NaN (NaT in a date column), is a cell of its own. A date is the number of days
  since 1970-01-01, the date part of the datetime64 value the frame stores.
\<close>

datatype cell = NaN | FloatV real | IntV int | DateV int

type_synonym series = "cell list"

text \<open>A data frame: its columns in order, each a name and a series of the same length.\<close>

type_synonym frame = "(string \<times> series) list"

datatype error =
    KeyError "string list"
  | DataError
  | TypeError
  | FileNotFoundError
  | UnpicklingError
  | HTTPException nat string

text \<open>Rounding to the nearest integer, ties to the even one, as Python and numpy round.\<close>

definition round_half_even :: "real \<Rightarrow> int" where
  "round_half_even x =
     (let f = \<lfloor>x\<rfloor>; d = x - of_int f
      in if d < 1/2 then f else if 1/2 < d then f + 1 else if even f then f else f + 1)"

text \<open>\<^verbatim>\<open>round(x, n)\<close> and \<^verbatim>\<open>Series.round(n)\<close> on one value.\<close>

definition py_round :: "real \<Rightarrow> nat \<Rightarrow> real" where
  "py_round x n = of_int (round_half_even (x * 10 ^ n)) / 10 ^ n"

text \<open>\<^verbatim>\<open>int(x)\<close> on a float: truncation towards zero.\<close>

definition py_int :: "real \<Rightarrow> int" where
  "py_int x = (if 0 \<le> x then \<lfloor>x\<rfloor> else \<lceil>x\<rceil>)"

section \<open>Data frame operations used by the pipeline\<close>

definition isna :: "cell \<Rightarrow> bool" where
  "isna c = (c = NaN)"

definition is_date :: "cell \<Rightarrow> bool" where
  "is_date c = (case c of DateV _ \<Rightarrow> True | _ \<Rightarrow> False)"

text \<open>\<^verbatim>\<open>len(df)\<close>.\<close>

definition nrows :: "frame \<Rightarrow> nat" where
  "nrows df = (case df of [] \<Rightarrow> 0 | (_, s) # _ \<Rightarrow> length s)"

text \<open>\<^verbatim>\<open>df[name]\<close>: the column, or KeyError.\<close>

definition getitem :: "frame \<Rightarrow> string \<Rightarrow> error + series" where
  "getitem df name = (case map_of df name of None \<Rightarrow> Inl (KeyError [name]) | Some s \<Rightarrow> Inr s)"

text \<open>\<^verbatim>\<open>df[name].iloc[i]\<close>, when the column exists and has a row \<open>i\<close>.\<close>

definition cell_at :: "frame \<Rightarrow> string \<Rightarrow> nat \<Rightarrow> cell option" where
  "cell_at df name i =
     (case map_of df name of None \<Rightarrow> None
      | Some s \<Rightarrow> if i < length s then Some (s ! i) else None)"

text \<open>\<^verbatim>\<open>df[name] = s\<close>: replaces the column in place, or appends a new last column.\<close>

fun setitem :: "frame \<Rightarrow> string \<Rightarrow> series \<Rightarrow> frame" where
  "setitem [] name s = [(name, s)]"
| "setitem ((name', s') # df) name s =
     (if name' = name then (name, s) # df else (name', s') # setitem df name s)"

text \<open>\<^verbatim>\<open>df[names]\<close>: the named columns in the order of \<open>names\<close>, or KeyError.\<close>

definition select :: "frame \<Rightarrow> string list \<Rightarrow> error + frame" where
  "select df names =
     (let missing = filter (\<lambda>c. map_of df c = None) names
      in if missing \<noteq> [] then Inl (KeyError missing)
         else Inr (map (\<lambda>c. (c, the (map_of df c))) names))"

text \<open>
  \<^verbatim>\<open>df.dropna().reset_index(drop=True)\<close>: the rows with no missing cell, in order; the
  new index is the position in the lists.
\<close>

definition dropna :: "frame \<Rightarrow> frame" where
  "dropna df =
     (let keep = filter (\<lambda>i. list_all (\<lambda>(name, s). \<not> isna (s ! i)) df) [0..<nrows df]
      in map (\<lambda>(name, s). (name, map (\<lambda>i. s ! i) keep)) df)"

text \<open>
  \<^verbatim>\<open>s.shift(k)\<close>: the values move \<open>k\<close> positions down (up when \<open>k\<close> is negative); the
  vacated positions hold NaN and the length is kept.
\<close>

definition shift :: "int \<Rightarrow> series \<Rightarrow> series" where
  "shift k s =
     (let n = length s
      in if 0 \<le> k then replicate (min (nat k) n) NaN @ take (n - nat k) s
         else drop (nat (- k)) s @ replicate (min (nat (- k)) n) NaN)"

definition to_float :: "cell \<Rightarrow> real option" where
  "to_float c = (case c of FloatV x \<Rightarrow> Some x | IntV n \<Rightarrow> Some (of_int n) | _ \<Rightarrow> None)"

text \<open>
  One value of \<^verbatim>\<open>s.rolling(window=w).mean()\<close>: \<open>min_periods\<close> defaults to the window, so
  the mean exists only when the window holds \<open>w\<close> rows and none of them is missing.
\<close>

definition window_mean :: "nat \<Rightarrow> series \<Rightarrow> nat \<Rightarrow> cell" where
  "window_mean w s i =
     (if i + 1 < w then NaN
      else let win = map to_float (take w (drop (i + 1 - w) s))
           in if list_ex (\<lambda>v. v = None) win then NaN
              else FloatV (sum_list (map the win) / real w))"

text \<open>\<^verbatim>\<open>s.rolling(window=w).mean()\<close>; a datetime column has no numeric mean.\<close>

definition rolling_mean :: "nat \<Rightarrow> series \<Rightarrow> error + series" where
  "rolling_mean w s =
     (if list_ex is_date s then Inl DataError
      else Inr (map (window_mean w s) [0..<length s]))"

text \<open>\<^verbatim>\<open>s.round(n)\<close> on a numeric series: floats are rounded, NaN and integers stay.\<close>

definition round_series :: "nat \<Rightarrow> series \<Rightarrow> series" where
  "round_series n s = map (\<lambda>c. case c of FloatV x \<Rightarrow> FloatV (py_round x n) | _ \<Rightarrow> c) s"

text \<open>
  An elementwise operation on a datetime series: NaT stays missing, a series that holds
  anything but dates is refused.
\<close>

definition dt_map :: "(int \<Rightarrow> cell) \<Rightarrow> series \<Rightarrow> error + series" where
  "dt_map f s =
     (if list_all (\<lambda>c. c = NaN \<or> is_date c) s
      then Inr (map (\<lambda>c. case c of DateV d \<Rightarrow> f d | _ \<Rightarrow> NaN) s)
      else Inl TypeError)"

subsection \<open>The calendar of a date\<close>

text \<open>\<^verbatim>\<open>.dt.dayofweek\<close>: Monday is 0 and Sunday is 6; 1970-01-01 was a Thursday.\<close>

definition dayofweek :: "int \<Rightarrow> int" where
  "dayofweek d = (d + 3) mod 7"

definition is_leap :: "int \<Rightarrow> bool" where
  "is_leap y = (y mod 4 = 0 \<and> (y mod 100 \<noteq> 0 \<or> y mod 400 = 0))"

text \<open>
  The proleptic Gregorian year of a date and the day within that year (from 0), by
  cycles of 400, 100, 4 and 1 years counted from 0001-01-01.
\<close>

definition year_and_yday :: "int \<Rightarrow> int \<times> int" where
  "year_and_yday d =
     (let z = d + 719162;
          n400 = z div 146097;
          r = z mod 146097;
          n100 = min 3 (r div 36524);
          r2 = r - n100 * 36524;
          n4 = r2 div 1461;
          r3 = r2 mod 1461;
          n1 = min 3 (r3 div 365)
      in (400 * n400 + 100 * n100 + 4 * n4 + n1 + 1, r3 - n1 * 365))"

definition month_of_yday :: "bool \<Rightarrow> int \<Rightarrow> int" where
  "month_of_yday leap yd =
     (let l = (if leap then 1 else 0)
      in if yd < 31 then 1
         else if yd < 59 + l then 2
         else if yd < 90 + l then 3
         else if yd < 120 + l then 4
         else if yd < 151 + l then 5
         else if yd < 181 + l then 6
         else if yd < 212 + l then 7
         else if yd < 243 + l then 8
         else if yd < 273 + l then 9
         else if yd < 304 + l then 10
         else if yd < 334 + l then 11
         else 12)"

text \<open>\<^verbatim>\<open>.dt.month\<close>: 1 to 12.\<close>

definition month_of :: "int \<Rightarrow> int" where
  "month_of d = (case year_and_yday d of (y, yd) \<Rightarrow> month_of_yday (is_leap y) yd)"

subsection \<open>The civil calendar, for reference\<close>

text \<open>
  The proleptic Gregorian calendar stated on its own, independently of the accessors
  above and of the program: the length of each month, the days of a year before a month,
  the days before a year, and from these the day number of the civil date \<open>y\<close>-\<open>m\<close>-\<open>d\<close>
  counted from 1970-01-01.
\<close>

definition days_before_year :: "int \<Rightarrow> int" where
  "days_before_year y = 365 * (y - 1) + (y - 1) div 4 - (y - 1) div 100 + (y - 1) div 400"

definition days_in_month :: "bool \<Rightarrow> int \<Rightarrow> int" where
  "days_in_month leap m =
     (if m = 2 then (if leap then 29 else 28)
      else if m = 4 \<or> m = 6 \<or> m = 9 \<or> m = 11 then 30 else 31)"

definition days_before_month :: "bool \<Rightarrow> int \<Rightarrow> int" where
  "days_before_month leap m =
     (\<Sum>k\<leftarrow>[1..m - 1]. days_in_month leap k)"

definition valid_date :: "int \<Rightarrow> int \<Rightarrow> int \<Rightarrow> bool" where
  "valid_date y m d = (1 \<le> m \<and> m \<le> 12 \<and> 1 \<le> d \<and> d \<le> days_in_month (is_leap y) m)"

definition days_from_civil :: "int \<Rightarrow> int \<Rightarrow> int \<Rightarrow> int" where
  "days_from_civil y m d =
     days_before_year y + days_before_month (is_leap y) m + (d - 1) - 719162"

section \<open>The feature pipeline (preprocess.py)\<close>

definition add_lag_features :: "frame \<Rightarrow> error + frame" where
  "add_lag_features df =
     (case getitem df ''pm25'' of Inl e \<Rightarrow> Inl e | Inr p1 \<Rightarrow>
        let df1 = setitem df ''pm25_lag_1'' (shift 1 p1) in
        (case getitem df1 ''pm25'' of Inl e \<Rightarrow> Inl e | Inr p2 \<Rightarrow>
           let df2 = setitem df1 ''pm25_lag_2'' (shift 2 p2) in
           (case getitem df2 ''pm25'' of Inl e \<Rightarrow> Inl e | Inr p7 \<Rightarrow>
              Inr (setitem df2 ''pm25_lag_7'' (shift 7 p7)))))"

definition add_rolling_averages :: "frame \<Rightarrow> error + frame" where
  "add_rolling_averages df =
     (case getitem df ''pm25'' of Inl e \<Rightarrow> Inl e | Inr p3 \<Rightarrow>
      case rolling_mean 3 p3 of Inl e \<Rightarrow> Inl e | Inr m3 \<Rightarrow>
        let df1 = setitem df ''pm25_rolling_3'' (round_series 1 m3) in
        (case getitem df1 ''pm25'' of Inl e \<Rightarrow> Inl e | Inr p7 \<Rightarrow>
         case rolling_mean 7 p7 of Inl e \<Rightarrow> Inl e | Inr m7 \<Rightarrow>
           Inr (setitem df1 ''pm25_rolling_7'' (round_series 1 m7))))"

definition add_calendar_features :: "frame \<Rightarrow> error + frame" where
  "add_calendar_features df =
     (case getitem df ''date'' of Inl e \<Rightarrow> Inl e | Inr dates \<Rightarrow>
      case dt_map (\<lambda>d. DateV (d + 1)) dates of Inl e \<Rightarrow> Inl e | Inr tomorrow \<Rightarrow>
      case dt_map (\<lambda>d. IntV (dayofweek d)) tomorrow of Inl e \<Rightarrow> Inl e | Inr dow \<Rightarrow>
        let df1 = setitem df ''day_of_week'' dow in
        (case dt_map (\<lambda>d. IntV (month_of d)) tomorrow of Inl e \<Rightarrow> Inl e | Inr m \<Rightarrow>
           Inr (setitem df1 ''month'' m)))"

definition add_target :: "frame \<Rightarrow> error + frame" where
  "add_target df =
     (case getitem df ''pm25'' of Inl e \<Rightarrow> Inl e | Inr p \<Rightarrow>
        Inr (setitem df TARGET_COLUMN (shift (- 1) p)))"

text \<open>
  \<open>clean_and_save\<close> also writes the frame to the processed-data file; the model keeps the
  frame it returns.
\<close>

definition clean_and_save :: "frame \<Rightarrow> error + frame" where
  "clean_and_save df =
     (let columns_to_keep = FEATURE_COLUMNS @ [TARGET_COLUMN]
      in case select df columns_to_keep of Inl e \<Rightarrow> Inl e | Inr kept \<Rightarrow> Inr (dropna kept))"

text \<open>The steps of the main block from the daily frame up to the target column.\<close>

definition add_all_features :: "frame \<Rightarrow> error + frame" where
  "add_all_features df =
     (case add_lag_features df of Inl e \<Rightarrow> Inl e | Inr df1 \<Rightarrow>
      case add_rolling_averages df1 of Inl e \<Rightarrow> Inl e | Inr df2 \<Rightarrow>
      case add_calendar_features df2 of Inl e \<Rightarrow> Inl e | Inr df3 \<Rightarrow>
        add_target df3)"

section \<open>The chronological split (train.py)\<close>

text \<open>\<^verbatim>\<open>X.iloc[:k]\<close> and \<^verbatim>\<open>X.iloc[k:]\<close> for a non-negative \<open>k\<close>.\<close>

definition iloc_to :: "frame \<Rightarrow> nat \<Rightarrow> frame" where
  "iloc_to df k = map (\<lambda>(name, s). (name, take k s)) df"

definition iloc_from :: "frame \<Rightarrow> nat \<Rightarrow> frame" where
  "iloc_from df k = map (\<lambda>(name, s). (name, drop k s)) df"

text \<open>The split index; it is never negative, so the slices are a prefix and a suffix.\<close>

definition split_index :: "nat \<Rightarrow> nat" where
  "split_index n = nat (py_int (real n * (1 - TEST_SIZE)))"

definition chronological_split :: "frame \<Rightarrow> series \<Rightarrow> frame \<times> frame \<times> series \<times> series" where
  "chronological_split X y =
     (let split_idx = split_index (nrows X);
          X_train = iloc_to X split_idx;
          X_test = iloc_from X split_idx;
          y_train = take split_idx y;
          y_test = drop split_idx y
      in (X_train, X_test, y_train, y_test))"

text \<open>
  \<open>load_data\<close> reads the processed file, here the frame \<open>clean_and_save\<close> returned, and
  separates the feature columns from the target.
\<close>

definition load_data :: "frame \<Rightarrow> error + frame \<times> series" where
  "load_data df =
     (case select df FEATURE_COLUMNS of Inl e \<Rightarrow> Inl e | Inr X \<Rightarrow>
      case getitem df TARGET_COLUMN of Inl e \<Rightarrow> Inl e | Inr y \<Rightarrow> Inr (X, y))"

text \<open>\<^verbatim>\<open>df.iloc[i]\<close>: the cells of row \<open>i\<close> in column order.\<close>

definition row :: "frame \<Rightarrow> nat \<Rightarrow> cell list" where
  "row df i = map (\<lambda>(name, s). s ! i) df"

section \<open>The inference service (app.py)\<close>

record PredictRequest =
  pm25 :: real
  pm25_lag_1 :: real
  pm25_lag_2 :: real
  pm25_lag_7 :: real
  pm25_rolling_3 :: real
  pm25_rolling_7 :: real
  day_of_week :: int
  month :: int


text \<open>The attribute of a request under its field name, as a cell.\<close>

definition request_attr :: "PredictRequest \<Rightarrow> string \<Rightarrow> cell option" where
  "request_attr r name =
     (if name = ''pm25'' then Some (FloatV (pm25 r))
      else if name = ''pm25_lag_1'' then Some (FloatV (pm25_lag_1 r))
      else if name = ''pm25_lag_2'' then Some (FloatV (pm25_lag_2 r))
      else if name = ''pm25_lag_7'' then Some (FloatV (pm25_lag_7 r))
      else if name = ''pm25_rolling_3'' then Some (FloatV (pm25_rolling_3 r))
      else if name = ''pm25_rolling_7'' then Some (FloatV (pm25_rolling_7 r))
      else if name = ''day_of_week'' then Some (IntV (day_of_week r))
      else if name = ''month'' then Some (IntV (month r))
      else None)"

record PredictResponse =
  city :: string
  predicted_pm25 :: real
  aqi_category :: string
  unit :: string

text \<open>A trained model: the value it predicts for one row of features.\<close>

type_synonym model = "real list \<Rightarrow> real"

text \<open>What is at the model path when the service starts.\<close>

datatype artifact = Missing | Corrupt | Valid model

text \<open>
  Loading the artifact: a missing file raises FileNotFoundError, a file that cannot be
  unpickled raises another exception.
\<close>

definition joblib_load :: "artifact \<Rightarrow> error + model" where
  "joblib_load a =
     (case a of Missing \<Rightarrow> Inl FileNotFoundError
              | Corrupt \<Rightarrow> Inl UnpicklingError
              | Valid m \<Rightarrow> Inr m)"

text \<open>
  The module-level load: the global \<open>model\<close> after start-up, or the exception that leaves
  the try statement.
\<close>

definition load_model :: "artifact \<Rightarrow> error + model option" where
  "load_model a =
     (case joblib_load a of
        Inr m \<Rightarrow> Inr (Some m)
      | Inl FileNotFoundError \<Rightarrow> Inr None
      | Inl e \<Rightarrow> Inl e)"

definition pm25_to_aqi_category :: "real \<Rightarrow> string" where
  "pm25_to_aqi_category v =
     (if v \<le> 12.0 then ''Good''
      else if v \<le> 35.4 then ''Moderate''
      else if v \<le> 55.4 then ''Unhealthy for Sensitive Groups''
      else if v \<le> 150.4 then ''Unhealthy''
      else if v \<le> 250.4 then ''Very Unhealthy''
      else ''Hazardous'')"

datatype json = JStr string | JBool bool

definition health_check :: "model option \<Rightarrow> (string \<times> json) list" where
  "health_check model =
     [(''status'', JStr (if model \<noteq> None then ''healthy'' else ''model not loaded'')),
      (''city'', JStr CITY),
      (''model_loaded'', JBool (model \<noteq> None))]"

text \<open>The row of features \<open>predict\<close> hands to the model; integers become floats in the array.\<close>

definition features :: "PredictRequest \<Rightarrow> real list" where
  "features request =
     [pm25 request,
      pm25_lag_1 request,
      pm25_lag_2 request,
      pm25_lag_7 request,
      pm25_rolling_3 request,
      pm25_rolling_7 request,
      of_int (day_of_week request),
      of_int (month request)]"

definition predict :: "model option \<Rightarrow> PredictRequest \<Rightarrow> error + PredictResponse" where
  "predict model request =
     (case model of
        None \<Rightarrow> Inl (HTTPException 503 ''Model not loaded. Run train.py first.'')
      | Some m \<Rightarrow>
          let prediction = m (features request);
              prediction = py_round (max prediction 0) 1
          in Inr \<lparr>city = CITY, predicted_pm25 = prediction,
                  aqi_category = pm25_to_aqi_category prediction,
                  unit = [CHR 0xC2, CHR 0xB5, CHR ''g'', CHR ''/'', CHR ''m'', CHR 0xC2, CHR 0xB3]\<rparr>)"

text \<open>The order of the health categories, from the mildest.\<close>

definition categories :: "string list" where
  "categories =
     [''Good'', ''Moderate'', ''Unhealthy for Sensitive Groups'', ''Unhealthy'',
      ''Very Unhealthy'', ''Hazardous'']"

definition severity :: "string \<Rightarrow> nat" where
  "severity c = length (takeWhile (\<lambda>x. x \<noteq> c) categories)"

section \<open>Auxiliary facts\<close>

lemma map_of_setitem: "map_of (setitem df k v) = (map_of df)(k \<mapsto> v)"
  by (induction df k v rule: setitem.induct) auto

lemma length_shift: "length (shift k s) = length s"
  by (auto simp: shift_def Let_def)

lemma nth_shift_down:
  "i < length s \<Longrightarrow> shift (int k) s ! i = (if k \<le> i then s ! (i - k) else NaN)"
  by (auto simp: shift_def Let_def nth_append)

lemma nth_shift_up:
  "i < length s \<Longrightarrow> shift (- int k) s ! i = (if i + k < length s then s ! (i + k) else NaN)"
proof -
  assume i: "i < length s"
  show ?thesis
  proof (cases "i + k < length s")
    case True
    then have "i < length s - k" by arith
    then show ?thesis using True by (simp add: shift_def Let_def nth_append add.commute)
  next
    case False
    then have "i - (length s - k) < min k (length s)" and "\<not> i < length s - k"
      using i by arith+
    then show ?thesis using False i by (simp add: shift_def Let_def nth_append)
  qed
qed





lemma split_index_eq: "split_index n = (4 * n) div 5"
proof -
  have e: "real n * (1 - TEST_SIZE) = real (4 * n) / real 5" by (simp add: TEST_SIZE_def)
  have f: "\<lfloor>real (4 * n) / real 5\<rfloor> = int ((4 * n) div 5)"
    by (rule floor_divide_of_nat_eq)
  have "0 \<le> real (4 * n) / real 5" by simp
  then show ?thesis unfolding split_index_def py_int_def e f by simp
qed

lemma dayofweek_range: "0 \<le> dayofweek d \<and> dayofweek d \<le> 6"
  by (simp add: dayofweek_def) 

lemma month_of_yday_range: "1 \<le> month_of_yday l yd \<and> month_of_yday l yd \<le> 12"
  by (simp add: month_of_yday_def Let_def)

lemma month_of_range: "1 \<le> month_of d \<and> month_of d \<le> 12"
  by (simp add: month_of_def month_of_yday_range split: prod.split)

lemma severity_values:
  "severity ''Good'' = 0" "severity ''Moderate'' = 1"
  "severity ''Unhealthy for Sensitive Groups'' = 2" "severity ''Unhealthy'' = 3"
  "severity ''Very Unhealthy'' = 4" "severity ''Hazardous'' = 5"
  by (simp_all add: severity_def categories_def)

lemma severity_category:
  "severity (pm25_to_aqi_category v) =
     (if v \<le> 12 then 0 else if v \<le> 35.4 then 1 else if v \<le> 55.4 then 2
      else if v \<le> 150.4 then 3 else if v \<le> 250.4 then 4 else 5)"
  unfolding pm25_to_aqi_category_def by (simp add: severity_values)

lemma severity_mono: "v \<le> w \<Longrightarrow> severity (pm25_to_aqi_category v) \<le> severity (pm25_to_aqi_category w)"
  unfolding severity_category by (simp split: if_splits)

section \<open>The health category\<close>

text \<open>
  C7: \<open>pm25_to_aqi_category\<close> is a step function with inclusive upper boundaries taken in
  ascending order: "Good" up to 12.0, "Moderate" up to 35.4, "Unhealthy for Sensitive
  Groups" up to 55.4, "Unhealthy" up to 150.4, "Very Unhealthy" up to 250.4 and
  "Hazardous" above; it is monotonic in the order of the categories, and 12.0, 12.1,
  35.4, 35.5 and 400 fall where the boundaries put them.
\<close>

theorem aqi_category_step_function:
  "(v \<le> 12 \<longrightarrow> pm25_to_aqi_category v = ''Good'') \<and>
   (12 < v \<and> v \<le> 35.4 \<longrightarrow> pm25_to_aqi_category v = ''Moderate'') \<and>
   (35.4 < v \<and> v \<le> 55.4 \<longrightarrow> pm25_to_aqi_category v = ''Unhealthy for Sensitive Groups'') \<and>
   (55.4 < v \<and> v \<le> 150.4 \<longrightarrow> pm25_to_aqi_category v = ''Unhealthy'') \<and>
   (150.4 < v \<and> v \<le> 250.4 \<longrightarrow> pm25_to_aqi_category v = ''Very Unhealthy'') \<and>
   (250.4 < v \<longrightarrow> pm25_to_aqi_category v = ''Hazardous'') \<and>
   (v \<le> w \<longrightarrow> severity (pm25_to_aqi_category v) \<le> severity (pm25_to_aqi_category w)) \<and>
   pm25_to_aqi_category 12.0 = ''Good'' \<and>
   pm25_to_aqi_category 12.1 = ''Moderate'' \<and>
   pm25_to_aqi_category 35.4 = ''Moderate'' \<and>
   pm25_to_aqi_category 35.5 = ''Unhealthy for Sensitive Groups'' \<and>
   pm25_to_aqi_category 400 = ''Hazardous''"
proof -
  have pts: "pm25_to_aqi_category 12.0 = ''Good''" "pm25_to_aqi_category 12.1 = ''Moderate''"
    "pm25_to_aqi_category 35.4 = ''Moderate''"
    "pm25_to_aqi_category 35.5 = ''Unhealthy for Sensitive Groups''"
    "pm25_to_aqi_category 400 = ''Hazardous''"
    by (simp_all add: pm25_to_aqi_category_def)
  have steps: "v \<le> 12 \<longrightarrow> pm25_to_aqi_category v = ''Good''"
    "12 < v \<and> v \<le> 35.4 \<longrightarrow> pm25_to_aqi_category v = ''Moderate''"
    "35.4 < v \<and> v \<le> 55.4 \<longrightarrow> pm25_to_aqi_category v = ''Unhealthy for Sensitive Groups''"
    "55.4 < v \<and> v \<le> 150.4 \<longrightarrow> pm25_to_aqi_category v = ''Unhealthy''"
    "150.4 < v \<and> v \<le> 250.4 \<longrightarrow> pm25_to_aqi_category v = ''Very Unhealthy''"
    "250.4 < v \<longrightarrow> pm25_to_aqi_category v = ''Hazardous''"
    by (simp_all add: pm25_to_aqi_category_def)
  show ?thesis using pts steps severity_mono[of v w] by blast
qed

theorem aqi_category_step_function_witness:
  "pm25_to_aqi_category 5 = ''Good'' \<and>
   pm25_to_aqi_category 20 = ''Moderate'' \<and>
   pm25_to_aqi_category 40 = ''Unhealthy for Sensitive Groups'' \<and>
   pm25_to_aqi_category 100 = ''Unhealthy'' \<and>
   pm25_to_aqi_category 200 = ''Very Unhealthy'' \<and>
   pm25_to_aqi_category 300 = ''Hazardous'' \<and>
   severity (pm25_to_aqi_category 20) \<le> severity (pm25_to_aqi_category 300)"
  using aqi_category_step_function[of 5 5] aqi_category_step_function[of 20 300]
    aqi_category_step_function[of 40 40] aqi_category_step_function[of 100 100]
    aqi_category_step_function[of 200 200] aqi_category_step_function[of 300 300]
  by (simp add: severity_values)

text \<open>
  C10: the categoriser gives every real input one of the six categories, and every input
  at most 12.0, any negative value included, is "Good".
\<close>

theorem aqi_category_total:
  "pm25_to_aqi_category v \<in> set categories \<and>
   (v \<le> 12 \<longrightarrow> pm25_to_aqi_category v = ''Good'') \<and>
   (v < 0 \<longrightarrow> pm25_to_aqi_category v = ''Good'')"
  by (simp add: pm25_to_aqi_category_def categories_def)

theorem aqi_category_total_witness:
  "pm25_to_aqi_category (- 5) \<in> set categories \<and> pm25_to_aqi_category (- 5) = ''Good''"
  using aqi_category_total[of "- 5"] by (simp add: categories_def)

section \<open>The prediction endpoint\<close>




text \<open>
  C9 as stated fails where the artifact is corrupt: only the missing file is caught at
  start-up, so the exception of an artifact that cannot be unpickled leaves the module.
\<close>

theorem load_corrupt_artifact_counterexample:
  "load_model Corrupt = Inl UnpicklingError"
  by (simp add: load_model_def joblib_load_def)

text \<open>
  C9, amended: when the model artifact is missing at start-up the load does not fail and
  the model state is None; with that state every call of \<open>predict\<close> is rejected with
  status 503 before any model is consulted, and \<open>health_check\<close> reports
  \<open>model_loaded\<close> false.
\<close>

theorem model_missing_handled:
  "load_model Missing = Inr None \<and>
   predict None request = Inl (HTTPException 503 ''Model not loaded. Run train.py first.'') \<and>
   map_of (health_check None) ''model_loaded'' = Some (JBool False) \<and>
   map_of (health_check None) ''status'' = Some (JStr ''model not loaded'')"
  by (simp add: load_model_def joblib_load_def predict_def health_check_def)

theorem model_missing_handled_witness:
  "predict None
     \<lparr>pm25 = 45, pm25_lag_1 = 38, pm25_lag_2 = 42, pm25_lag_7 = 55,
      pm25_rolling_3 = 41.7, pm25_rolling_7 = 44, day_of_week = 3, month = 1\<rparr>
   = Inl (HTTPException 503 ''Model not loaded. Run train.py first.'')"
  using model_missing_handled[of
      "\<lparr>pm25 = 45, pm25_lag_1 = 38, pm25_lag_2 = 42, pm25_lag_7 = 55,
        pm25_rolling_3 = 41.7, pm25_rolling_7 = 44, day_of_week = 3, month = 1\<rparr>"]
  by simp

section \<open>The feature constructor\<close>

lemma getitem_Some: "map_of df name = Some s \<Longrightarrow> getitem df name = Inr s"
  by (simp add: getitem_def)

lemma add_lag_features_result:
  assumes "map_of df ''pm25'' = Some p"
  shows "add_lag_features df =
           Inr (setitem (setitem (setitem df ''pm25_lag_1'' (shift 1 p))
                  ''pm25_lag_2'' (shift 2 p)) ''pm25_lag_7'' (shift 7 p))"
  using assms by (simp add: add_lag_features_def getitem_def map_of_setitem Let_def)

text \<open>
  C2: lag features are positional. When the frame has a \<open>pm25\<close> column, \<open>add_lag_features\<close>
  succeeds, and for each \<open>k\<close> of 1, 2 and 7 the cell of \<open>pm25_lag_k\<close> at row \<open>i\<close> is the
  \<open>pm25\<close> cell of row \<open>i - k\<close> when that row exists and NaN otherwise. Only the position
  counts: no other column, the dates included, is read or changed.
\<close>

theorem lag_features_positional:
  assumes "map_of df ''pm25'' = Some p" and "i < length p"
  shows "\<exists>df' l1 l2 l7.
           add_lag_features df = Inr df' \<and>
           map_of df' ''pm25_lag_1'' = Some l1 \<and> length l1 = length p \<and>
           map_of df' ''pm25_lag_2'' = Some l2 \<and> length l2 = length p \<and>
           map_of df' ''pm25_lag_7'' = Some l7 \<and> length l7 = length p \<and>
           l1 ! i = (if 1 \<le> i then p ! (i - 1) else NaN) \<and>
           l2 ! i = (if 2 \<le> i then p ! (i - 2) else NaN) \<and>
           l7 ! i = (if 7 \<le> i then p ! (i - 7) else NaN) \<and>
           (\<forall>c. c \<notin> {''pm25_lag_1'', ''pm25_lag_2'', ''pm25_lag_7''} \<longrightarrow> map_of df' c = map_of df c)"
proof -
  have n1: "shift 1 p ! i = (if 1 \<le> i then p ! (i - 1) else NaN)"
    using nth_shift_down[OF assms(2), of 1] by simp
  have n2: "shift 2 p ! i = (if 2 \<le> i then p ! (i - 2) else NaN)"
    using nth_shift_down[OF assms(2), of 2] by simp
  have n7: "shift 7 p ! i = (if 7 \<le> i then p ! (i - 7) else NaN)"
    using nth_shift_down[OF assms(2), of 7] by simp
  show ?thesis
    unfolding add_lag_features_result[OF assms(1)]
    using n1 n2 n7 by (simp add: map_of_setitem length_shift)
qed

theorem lag_features_positional_witness:
  "\<exists>df' l1 l2 l7.
     add_lag_features
       [(''date'', map DateV [0, 1, 5, 6, 7, 8, 9, 20, 21]),
        (''pm25'', map FloatV [10, 11, 12, 13, 14, 15, 16, 17, 18])] = Inr df' \<and>
     map_of df' ''pm25_lag_1'' = Some l1 \<and> map_of df' ''pm25_lag_2'' = Some l2 \<and>
     map_of df' ''pm25_lag_7'' = Some l7 \<and>
     l1 ! 8 = FloatV 17 \<and> l2 ! 8 = FloatV 16 \<and> l7 ! 8 = FloatV 11"
  using lag_features_positional[of
      "[(''date'', map DateV [0, 1, 5, 6, 7, 8, 9, 20, 21]),
        (''pm25'', map FloatV [10, 11, 12, 13, 14, 15, 16, 17, 18])]"
      "map FloatV [10, 11, 12, 13, 14, 15, 16, 17, 18]" 8]
  apply simp
  apply (elim exE conjE)
  apply (intro exI conjI)
        apply assumption+
  done

lemma dt_map_dates: "dt_map f (map (\<lambda>d. DateV (g d)) ds) = Inr (map (\<lambda>d. f (g d)) ds)"
  by (simp add: dt_map_def is_date_def list_all_iff comp_def)

lemma dayofweek_next: "dayofweek (d + 1) = (dayofweek d + 1) mod 7"
  unfolding dayofweek_def by presburger

lemma add_calendar_features_result:
  assumes "map_of df ''date'' = Some (map DateV ds)"
  shows "add_calendar_features df =
           Inr (setitem (setitem df ''day_of_week'' (map (\<lambda>d. IntV (dayofweek (d + 1))) ds))
                  ''month'' (map (\<lambda>d. IntV (month_of (d + 1))) ds))"
proof -
  have t: "dt_map (\<lambda>d. DateV (d + 1)) (map DateV ds) = Inr (map (\<lambda>d. DateV (d + 1)) ds)"
    using dt_map_dates[of "\<lambda>d. DateV (d + 1)" "\<lambda>d. d" ds] by simp
  show ?thesis
    unfolding add_calendar_features_def getitem_Some[OF assms] t
    by (simp add: dt_map_dates Let_def)
qed

lemma year_and_yday_cycles:
  fixes a b c e n :: int
  assumes b: "0 \<le> b" "b \<le> 3" and c: "0 \<le> c" "c \<le> 24" and e: "0 \<le> e" "e \<le> 3"
    and n: "0 \<le> n" "n \<le> 365" and leap: "n = 365 \<longrightarrow> e = 3 \<and> (c \<noteq> 24 \<or> b = 3)"
  shows "year_and_yday (146097 * a + 36524 * b + 1461 * c + 365 * e + n - 719162)
           = (400 * a + 100 * b + 4 * c + e + 1, n)"
proof -
  define r where "r = 36524 * b + 1461 * c + 365 * e + n"
  define r2 where "r2 = 1461 * c + 365 * e + n"
  define r3 where "r3 = 365 * e + n"
  define z where "z = 146097 * a + 36524 * b + 1461 * c + 365 * e + n - 719162 + 719162"
  have zr: "z = 146097 * a + r" by (simp add: z_def r_def)
  have r_lo: "0 \<le> r" and r_hi: "r < 146097"
    using b c e n by (simp_all add: r_def)
  have zd: "z div 146097 = a" and zm: "z mod 146097 = r"
    using int_div_pos_eq[OF zr r_lo r_hi] int_mod_pos_eq[OF zr r_lo r_hi] by simp_all
  have rr2: "r = 36524 * b + r2" by (simp add: r_def r2_def)
  have r2_lo: "0 \<le> r2" using c e n by (simp add: r2_def)
  have n100: "min 3 (r div 36524) = b"
  proof (cases "b = 3")
    case True
    have "3 * 36524 \<le> r" using True r2_lo rr2 by simp
    then have "3 \<le> r div 36524" by simp
    then show ?thesis using True by simp
  next
    case False
    then have "n = 365 \<longrightarrow> c \<noteq> 24" using leap by simp
    then have "r2 < 36524" using c e n unfolding r2_def by auto
    then have "r div 36524 = b" using int_div_pos_eq[OF rr2 r2_lo] by simp
    then show ?thesis using b by simp
  qed
  have r2r3: "r2 = 1461 * c + r3" by (simp add: r2_def r3_def)
  have r3_lo: "0 \<le> r3" and r3_hi: "r3 < 1461" using e n by (simp_all add: r3_def)
  have n4: "r2 div 1461 = c" and r3m: "r2 mod 1461 = r3"
    using int_div_pos_eq[OF r2r3 r3_lo r3_hi] int_mod_pos_eq[OF r2r3 r3_lo r3_hi] by simp_all
  have n1: "min 3 (r3 div 365) = e"
  proof (cases "e = 3")
    case True
    have "3 * 365 \<le> r3" using True n by (simp add: r3_def)
    then have "3 \<le> r3 div 365" by simp
    then show ?thesis using True by simp
  next
    case False
    then have "n < 365" using leap n by auto
    then have "r3 div 365 = e" using int_div_pos_eq[of r3 365 e n] n by (simp add: r3_def)
    then show ?thesis using e by simp
  qed
  have r2': "r - b * 36524 = r2" by (simp add: rr2)
  have yd: "r3 - e * 365 = n" by (simp add: r3_def)
  show ?thesis
    unfolding year_and_yday_def z_def[symmetric] Let_def zd zm n100 r2' n4 r3m n1 yd
    by simp
qed

lemma mod_zero_top:
  fixes v m :: int
  assumes "1 \<le> v" and "v \<le> m"
  shows "(v mod m = 0) = (v = m)"
proof (cases "v = m")
  case True
  then show ?thesis by simp
next
  case False
  then have "v mod m = v" using assms by (intro mod_pos_pos_trivial) auto
  then show ?thesis using assms False by simp
qed

lemma year_and_yday_of_year:
  fixes y n :: int
  assumes n: "0 \<le> n" "n < (if is_leap y then 366 else 365)"
  shows "year_and_yday (days_before_year y + n - 719162) = (y, n)"
proof -
  define Y where "Y = y - 1"
  define a where "a = Y div 400"
  define b where "b = (Y mod 400) div 100"
  define c where "c = (Y mod 100) div 4"
  define e where "e = Y mod 4"
  have b: "0 \<le> b" "b \<le> 3" unfolding b_def by simp_all
  have c: "0 \<le> c" "c \<le> 24" unfolding c_def by simp_all
  have e: "0 \<le> e" "e \<le> 3" unfolding e_def by simp_all
  have m100: "Y mod 100 = 4 * c + e"
  proof -
    have "Y mod 100 mod 4 = Y mod 4" by (simp add: mod_mod_cancel)
    then show ?thesis unfolding c_def e_def using mult_div_mod_eq[of 4 "Y mod 100"] by simp
  qed
  have m400: "Y mod 400 = 100 * b + 4 * c + e"
  proof -
    have "Y mod 400 mod 100 = Y mod 100" by (simp add: mod_mod_cancel)
    then have "Y mod 400 = 100 * b + Y mod 100"
      unfolding b_def using mult_div_mod_eq[of 100 "Y mod 400"] by simp
    then show ?thesis using m100 by simp
  qed
  have Y: "Y = 400 * a + (100 * b + 4 * c + e)"
    unfolding a_def m400[symmetric] by simp
  have d400: "Y div 400 = a" by (simp add: a_def)
  have d100: "Y div 100 = 4 * a + b"
    by (rule int_div_pos_eq[of _ _ _ "4 * c + e"]) (use Y c e in auto)
  have d4: "Y div 4 = 100 * a + 25 * b + c"
    by (rule int_div_pos_eq[of _ _ _ e]) (use Y e in auto)
  have dby: "days_before_year y = 146097 * a + 36524 * b + 1461 * c + 365 * e"
    unfolding days_before_year_def Y_def[symmetric] d4 d100 d400 using Y by simp
  have y: "y = 400 * a + 100 * b + 4 * c + e + 1" using Y by (simp add: Y_def)
  have y4: "y mod 4 = (e + 1) mod 4"
  proof -
    have "y = 4 * (100 * a + 25 * b + c) + (e + 1)" using y by simp
    then show ?thesis by (simp only: mod_mult_self4)
  qed
  have y100: "y mod 100 = (4 * c + e + 1) mod 100"
  proof -
    have "y = 100 * (4 * a + b) + (4 * c + e + 1)" using y by simp
    then show ?thesis by (simp only: mod_mult_self4)
  qed
  have y400: "y mod 400 = (100 * b + 4 * c + e + 1) mod 400"
  proof -
    have "y = 400 * a + (100 * b + 4 * c + e + 1)" using y by simp
    then show ?thesis by (simp only: mod_mult_self4)
  qed
  have l4: "(y mod 4 = 0) = (e = 3)"
    unfolding y4 using mod_zero_top[of "e + 1" 4] e by auto
  have l100: "(y mod 100 = 0) = (c = 24 \<and> e = 3)"
  proof -
    have "(4 * c + e + 1 = 100) = (c = 24 \<and> e = 3)" using c e by arith
    moreover have "((4 * c + e + 1) mod 100 = 0) = (4 * c + e + 1 = 100)"
      using c e by (intro mod_zero_top) arith+
    ultimately show ?thesis unfolding y100 by simp
  qed
  have l400: "(y mod 400 = 0) = (b = 3 \<and> c = 24 \<and> e = 3)"
  proof -
    have "(100 * b + 4 * c + e + 1 = 400) = (b = 3 \<and> c = 24 \<and> e = 3)"
      using b c e by arith
    moreover have "((100 * b + 4 * c + e + 1) mod 400 = 0) = (100 * b + 4 * c + e + 1 = 400)"
      using b c e by (intro mod_zero_top) arith+
    ultimately show ?thesis unfolding y400 by simp
  qed
  have leap: "is_leap y = (e = 3 \<and> (c \<noteq> 24 \<or> b = 3))"
    unfolding is_leap_def l4 l100 l400 by auto
  have n365: "n \<le> 365" and nl: "n = 365 \<longrightarrow> e = 3 \<and> (c \<noteq> 24 \<or> b = 3)"
    using n leap by (auto split: if_splits)
  show ?thesis
    unfolding dby
    using year_and_yday_cycles[OF b c e n(1) n365 nl, of a] y by simp
qed

lemma upto_from_one: "[1..numeral n] = 1 # [2..numeral n]"
  by (subst upto.simps) simp

lemma days_before_month_values:
  "days_before_month leap 1 = 0"
  "days_before_month leap 2 = 31"
  "days_before_month leap 3 = 59 + (if leap then 1 else 0)"
  "days_before_month leap 4 = 90 + (if leap then 1 else 0)"
  "days_before_month leap 5 = 120 + (if leap then 1 else 0)"
  "days_before_month leap 6 = 151 + (if leap then 1 else 0)"
  "days_before_month leap 7 = 181 + (if leap then 1 else 0)"
  "days_before_month leap 8 = 212 + (if leap then 1 else 0)"
  "days_before_month leap 9 = 243 + (if leap then 1 else 0)"
  "days_before_month leap 10 = 273 + (if leap then 1 else 0)"
  "days_before_month leap 11 = 304 + (if leap then 1 else 0)"
  "days_before_month leap 12 = 334 + (if leap then 1 else 0)"
  by (simp_all add: days_before_month_def days_in_month_def upto_from_one)

lemma month_of_yday_in_month:
  assumes "1 \<le> m" and "m \<le> 12" and "1 \<le> d" and "d \<le> days_in_month leap m"
  shows "0 \<le> days_before_month leap m + (d - 1) \<and>
         days_before_month leap m + (d - 1) < (if leap then 366 else 365) \<and>
         month_of_yday leap (days_before_month leap m + (d - 1)) = m"
proof -
  have "m = 1 \<or> m = 2 \<or> m = 3 \<or> m = 4 \<or> m = 5 \<or> m = 6 \<or> m = 7 \<or> m = 8 \<or> m = 9 \<or>
      m = 10 \<or> m = 11 \<or> m = 12"
    using assms(1,2) by arith
  then show ?thesis
    using assms(3,4)
    by (elim disjE)
      (simp_all add: days_before_month_values days_in_month_def month_of_yday_def Let_def
        split: if_splits)
qed

lemma month_of_days_from_civil:
  assumes "valid_date y m d"
  shows "month_of (days_from_civil y m d) = m"
proof -
  define n where "n = days_before_month (is_leap y) m + (d - 1)"
  have v: "1 \<le> m" "m \<le> 12" "1 \<le> d" "d \<le> days_in_month (is_leap y) m"
    using assms by (simp_all add: valid_date_def)
  from month_of_yday_in_month[OF v]
  have n: "0 \<le> n" "n < (if is_leap y then 366 else 365)" and mo: "month_of_yday (is_leap y) n = m"
    unfolding n_def by simp_all
  have "days_from_civil y m d = days_before_year y + n - 719162"
    by (simp add: days_from_civil_def n_def)
  then have "year_and_yday (days_from_civil y m d) = (y, n)"
    using year_and_yday_of_year[OF n] by simp
  then show ?thesis by (simp add: month_of_def mo)
qed

lemma calendar_samples:
  "days_from_civil 1970 1 1 = 0" "dayofweek 0 = 3"
  "days_from_civil 2023 3 1 = 19417" "days_from_civil 2024 2 29 = 19782"
  "days_from_civil 2024 3 1 = 19783" "days_from_civil 2024 12 31 = 20088"
  "days_from_civil 2025 1 1 = 20089"
  "valid_date 2023 3 1" "valid_date 2024 2 29" "valid_date 2024 3 1"
  "valid_date 2024 12 31" "valid_date 2025 1 1"
  "dayofweek 19417 = 2" "dayofweek 19782 = 3" "dayofweek 19783 = 4"
  "dayofweek 20088 = 1" "dayofweek 20089 = 2"
  by code_simp+

text \<open>
  C4: the calendar features describe the day after the row's date. For a row with date
  \<open>d\<close>, \<open>add_calendar_features\<close> sets \<open>day_of_week\<close> to the weekday of \<open>d + 1\<close>, from 0 for
  Monday to 6 for Sunday and so one weekday after that of \<open>d\<close>, and \<open>month\<close> to the month,
  from 1 to 12, of \<open>d + 1\<close>: whenever \<open>d + 1\<close> is the civil date \<open>y\<close>-\<open>mth\<close>-\<open>dd\<close> of the
  reference calendar, the \<open>month\<close> cell is \<open>mth\<close>.
\<close>

theorem calendar_features_of_next_day:
  assumes "map_of df ''date'' = Some (map DateV ds)" and "i < length ds"
  shows "\<exists>df' dow m.
           add_calendar_features df = Inr df' \<and>
           map_of df' ''day_of_week'' = Some dow \<and> length dow = length ds \<and>
           map_of df' ''month'' = Some m \<and> length m = length ds \<and>
           dow ! i = IntV (dayofweek (ds ! i + 1)) \<and>
           m ! i = IntV (month_of (ds ! i + 1)) \<and>
           0 \<le> dayofweek (ds ! i + 1) \<and> dayofweek (ds ! i + 1) \<le> 6 \<and>
           dayofweek (ds ! i + 1) = (dayofweek (ds ! i) + 1) mod 7 \<and>
           1 \<le> month_of (ds ! i + 1) \<and> month_of (ds ! i + 1) \<le> 12 \<and>
           (valid_date y mth dd \<and> ds ! i + 1 = days_from_civil y mth dd \<longrightarrow>
              m ! i = IntV mth)"
proof -
  have civil: "valid_date y mth dd \<and> ds ! i + 1 = days_from_civil y mth dd \<longrightarrow>
      month_of (ds ! i + 1) = mth"
    using month_of_days_from_civil[of y mth dd] by auto
  show ?thesis
    unfolding add_calendar_features_result[OF assms(1)]
    using assms(2) dayofweek_range[of "ds ! i + 1"] month_of_range[of "ds ! i + 1"]
      dayofweek_next[of "ds ! i"] civil
    by (simp add: map_of_setitem)
qed

theorem calendar_features_of_next_day_witness:
  "\<exists>df' dow m.
     add_calendar_features
       [(''date'', map DateV [19416, 19781, 19782, 20087, 20088]),
        (''pm25'', map FloatV [40, 50, 45, 60, 70])] = Inr df' \<and>
     map_of df' ''day_of_week'' = Some dow \<and> map_of df' ''month'' = Some m \<and>
     dow ! 0 = IntV 2 \<and> m ! 0 = IntV 3 \<and>
     dow ! 1 = IntV 3 \<and> m ! 1 = IntV 2 \<and>
     dow ! 2 = IntV 4 \<and> m ! 2 = IntV 3 \<and>
     dow ! 3 = IntV 1 \<and> m ! 3 = IntV 12 \<and>
     dow ! 4 = IntV 2 \<and> m ! 4 = IntV 1"
proof -
  let ?ds = "[19416, 19781, 19782, 20087, 20088] :: int list"
  let ?F = "[(''date'', map DateV ?ds), (''pm25'', map FloatV [40, 50, 45, 60, 70])]"
  have h: "map_of ?F ''date'' = Some (map DateV ?ds)" by simp
  have r0: "\<exists>df' dow m. add_calendar_features ?F = Inr df' \<and>
      map_of df' ''day_of_week'' = Some dow \<and> map_of df' ''month'' = Some m \<and>
      dow ! 0 = IntV 2 \<and> m ! 0 = IntV 3"
    using calendar_features_of_next_day[OF h, of 0 2023 3 1]
    apply (simp add: calendar_samples)
    apply (elim exE conjE)
    apply (intro exI conjI)
        apply assumption+
    done
  have r1: "\<exists>df' dow m. add_calendar_features ?F = Inr df' \<and>
      map_of df' ''day_of_week'' = Some dow \<and> map_of df' ''month'' = Some m \<and>
      dow ! 1 = IntV 3 \<and> m ! 1 = IntV 2"
    using calendar_features_of_next_day[OF h, of 1 2024 2 29]
    apply (simp add: calendar_samples)
    apply (elim exE conjE)
    apply (intro exI conjI)
        apply assumption+
    done
  have r2: "\<exists>df' dow m. add_calendar_features ?F = Inr df' \<and>
      map_of df' ''day_of_week'' = Some dow \<and> map_of df' ''month'' = Some m \<and>
      dow ! 2 = IntV 4 \<and> m ! 2 = IntV 3"
    using calendar_features_of_next_day[OF h, of 2 2024 3 1]
    apply (simp add: calendar_samples)
    apply (elim exE conjE)
    apply (intro exI conjI)
        apply assumption+
    done
  have r3: "\<exists>df' dow m. add_calendar_features ?F = Inr df' \<and>
      map_of df' ''day_of_week'' = Some dow \<and> map_of df' ''month'' = Some m \<and>
      dow ! 3 = IntV 1 \<and> m ! 3 = IntV 12"
    using calendar_features_of_next_day[OF h, of 3 2024 12 31]
    apply (simp add: calendar_samples)
    apply (elim exE conjE)
    apply (intro exI conjI)
        apply assumption+
    done
  have r4: "\<exists>df' dow m. add_calendar_features ?F = Inr df' \<and>
      map_of df' ''day_of_week'' = Some dow \<and> map_of df' ''month'' = Some m \<and>
      dow ! 4 = IntV 2 \<and> m ! 4 = IntV 1"
    using calendar_features_of_next_day[OF h, of 4 2025 1 1]
    apply (simp add: calendar_samples)
    apply (elim exE conjE)
    apply (intro exI conjI)
        apply assumption+
    done
  from r0 r1 r2 r3 r4 show ?thesis by (elim exE conjE) simp
qed

lemma take_drop_window:
  assumes "a + w \<le> length s"
  shows "take w (drop a s) = map (\<lambda>j. s ! j) [a..<a + w]"
  by (rule nth_equalityI) (use assms in auto)

lemma window_mean_short: "i + 1 < w \<Longrightarrow> window_mean w s i = NaN"
  by (simp add: window_mean_def)

lemma window_mean_defined:
  assumes "w \<le> i + 1" and "i < length s"
    and "\<forall>j\<in>{i + 1 - w..i}. s ! j = FloatV (v j)"
  shows "window_mean w s i = FloatV ((\<Sum>j = i + 1 - w..i. v j) / real w)"
proof -
  let ?a = "i + 1 - w"
  have aw: "?a + w = i + 1" using assms(1) by simp
  then have len: "?a + w \<le> length s" using assms(2) by simp
  have win: "map to_float (take w (drop ?a s)) = map (\<lambda>j. Some (v j)) [?a..<i + 1]"
    unfolding take_drop_window[OF len] aw map_map comp_def
    by (rule map_cong[OF refl]) (use assms(3) in \<open>auto simp: to_float_def\<close>)
  have idx: "{?a..<i + 1} = {?a..i}" by auto
  have sm: "sum_list (map v [?a..<i + 1]) = (\<Sum>j = ?a..i. v j)"
    by (simp only: interv_sum_list_conv_sum_set_nat atLeastLessThan_upt[symmetric] idx)
  have nw: "(i + 1 < w) = False" using assms(1) by simp
  have nonone: "list_ex (\<lambda>v. v = None) (map (\<lambda>j. Some (v j)) [?a..<i + 1]) = False"
    by (auto simp: list_ex_iff)
  have vals: "map the (map (\<lambda>j. Some (v j)) [?a..<i + 1]) = map v [?a..<i + 1]"
    by (simp add: comp_def del: upt_Suc)
  show ?thesis
    unfolding window_mean_def Let_def win
    by (simp only: nw nonone vals sm if_False)
qed

lemma window_mean_missing:
  assumes "w \<le> i + 1" and "i < length s" and "j \<in> {i + 1 - w..i}" and "s ! j = NaN"
  shows "window_mean w s i = NaN"
proof -
  let ?a = "i + 1 - w"
  have aw: "?a + w = i + 1" using assms(1) by simp
  then have len: "?a + w \<le> length s" using assms(2) by simp
  have "j \<in> set [?a..<i + 1]" using assms(3) by auto
  then have "to_float (s ! j) \<in> set (map to_float (take w (drop ?a s)))"
    unfolding take_drop_window[OF len] aw by (simp del: upt_Suc)
  then have "list_ex (\<lambda>v. v = None) (map to_float (take w (drop ?a s)))"
    unfolding list_ex_iff using assms(4) by (auto simp: to_float_def simp del: upt_Suc)
  then show ?thesis using assms(1) by (simp add: window_mean_def)
qed

lemma rolling_mean_float:
  "\<not> list_ex is_date s \<Longrightarrow> rolling_mean w s = Inr (map (window_mean w s) [0..<length s])"
  by (simp add: rolling_mean_def)

lemma nth_rounded_window_NaN:
  "i < length s \<Longrightarrow> window_mean w s i = NaN \<Longrightarrow>
   round_series n (map (window_mean w s) [0..<length s]) ! i = NaN"
  by (simp add: round_series_def)

lemma nth_rounded_window_Float:
  "i < length s \<Longrightarrow> window_mean w s i = FloatV x \<Longrightarrow>
   round_series n (map (window_mean w s) [0..<length s]) ! i = FloatV (py_round x n)"
  by (simp add: round_series_def)

lemma add_rolling_averages_result:
  assumes "map_of df ''pm25'' = Some p" and "\<not> list_ex is_date p"
  shows "add_rolling_averages df =
           Inr (setitem (setitem df ''pm25_rolling_3''
                  (round_series 1 (map (window_mean 3 p) [0..<length p])))
                  ''pm25_rolling_7'' (round_series 1 (map (window_mean 7 p) [0..<length p])))"
  using assms
  by (simp add: add_rolling_averages_def getitem_def map_of_setitem Let_def rolling_mean_float
      del: upt_Suc)

text \<open>
  C3: rolling averages. When \<open>pm25\<close> is a numeric column, \<open>add_rolling_averages\<close> succeeds,
  and for each window \<open>w\<close> of 3 and 7 the cell of \<open>pm25_rolling_w\<close> at row \<open>i\<close> is NaN when
  fewer than \<open>w\<close> rows end at row \<open>i\<close>, and otherwise the arithmetic mean of the \<open>pm25\<close>
  values of rows \<open>i - w + 1\<close> to \<open>i\<close>, rounded to 1 decimal. A missing value inside the
  window leaves the cell missing.
\<close>

theorem rolling_averages_windowed_mean:
  assumes "map_of df ''pm25'' = Some p" and "\<not> list_ex is_date p" and "i < length p"
  shows "\<exists>df' r3 r7.
           add_rolling_averages df = Inr df' \<and>
           map_of df' ''pm25_rolling_3'' = Some r3 \<and> length r3 = length p \<and>
           map_of df' ''pm25_rolling_7'' = Some r7 \<and> length r7 = length p \<and>
           (i + 1 < 3 \<longrightarrow> r3 ! i = NaN) \<and>
           (i + 1 < 7 \<longrightarrow> r7 ! i = NaN) \<and>
           (3 \<le> i + 1 \<and> (\<forall>j\<in>{i + 1 - 3..i}. p ! j = FloatV (v j)) \<longrightarrow>
              r3 ! i = FloatV (py_round ((\<Sum>j = i + 1 - 3..i. v j) / 3) 1)) \<and>
           (7 \<le> i + 1 \<and> (\<forall>j\<in>{i + 1 - 7..i}. p ! j = FloatV (v j)) \<longrightarrow>
              r7 ! i = FloatV (py_round ((\<Sum>j = i + 1 - 7..i. v j) / 7) 1)) \<and>
           (3 \<le> i + 1 \<and> (\<exists>j\<in>{i + 1 - 3..i}. p ! j = NaN) \<longrightarrow> r3 ! i = NaN) \<and>
           (7 \<le> i + 1 \<and> (\<exists>j\<in>{i + 1 - 7..i}. p ! j = NaN) \<longrightarrow> r7 ! i = NaN)"
proof -
  let ?r3 = "round_series 1 (map (window_mean 3 p) [0..<length p])"
  let ?r7 = "round_series 1 (map (window_mean 7 p) [0..<length p])"
  have s3: "i + 1 < 3 \<longrightarrow> ?r3 ! i = NaN"
    using assms(3) by (simp add: nth_rounded_window_NaN window_mean_short del: upt_Suc)
  have s7: "i + 1 < 7 \<longrightarrow> ?r7 ! i = NaN"
    using assms(3) by (simp add: nth_rounded_window_NaN window_mean_short del: upt_Suc)
  have d3: "3 \<le> i + 1 \<and> (\<forall>j\<in>{i + 1 - 3..i}. p ! j = FloatV (v j)) \<longrightarrow>
      ?r3 ! i = FloatV (py_round ((\<Sum>j = i + 1 - 3..i. v j) / 3) 1)"
    using assms(3) window_mean_defined[of 3 i p v] nth_rounded_window_Float[of i p 3 _ 1]
    by (simp del: upt_Suc One_nat_def)
  have d7: "7 \<le> i + 1 \<and> (\<forall>j\<in>{i + 1 - 7..i}. p ! j = FloatV (v j)) \<longrightarrow>
      ?r7 ! i = FloatV (py_round ((\<Sum>j = i + 1 - 7..i. v j) / 7) 1)"
    using assms(3) window_mean_defined[of 7 i p v] nth_rounded_window_Float[of i p 7 _ 1]
    by (simp del: upt_Suc One_nat_def)
  have m3: "3 \<le> i + 1 \<and> (\<exists>j\<in>{i + 1 - 3..i}. p ! j = NaN) \<longrightarrow> ?r3 ! i = NaN"
    using assms(3) window_mean_missing[of 3 i p] nth_rounded_window_NaN[of i p 3 1]
    by (auto simp del: upt_Suc One_nat_def)
  have m7: "7 \<le> i + 1 \<and> (\<exists>j\<in>{i + 1 - 7..i}. p ! j = NaN) \<longrightarrow> ?r7 ! i = NaN"
    using assms(3) window_mean_missing[of 7 i p] nth_rounded_window_NaN[of i p 7 1]
    by (auto simp del: upt_Suc One_nat_def)
  have l3: "length ?r3 = length p" and l7: "length ?r7 = length p"
    by (simp_all add: round_series_def)
  show ?thesis
    unfolding add_rolling_averages_result[OF assms(1,2)]
    using s3 s7 d3 d7 m3 m7 l3 l7
    by (simp add: map_of_setitem del: upt_Suc)
qed

theorem rolling_averages_windowed_mean_witness:
  "\<exists>df' r3 r7.
     add_rolling_averages
       [(''date'', map DateV [0, 1, 5, 6, 7, 8, 9, 20, 21]),
        (''pm25'', map FloatV [10, 11, 12, 13, 14, 15, 16, 17, 19])] = Inr df' \<and>
     map_of df' ''pm25_rolling_3'' = Some r3 \<and>
     map_of df' ''pm25_rolling_7'' = Some r7 \<and>
     r3 ! 1 = NaN \<and> r7 ! 5 = NaN \<and>
     r3 ! 8 = FloatV 17.3 \<and> r7 ! 8 = FloatV 15.1"
proof -
  let ?vs = "[10, 11, 12, 13, 14, 15, 16, 17, 19] :: real list"
  let ?p = "map FloatV ?vs"
  let ?F = "[(''date'', map DateV [0, 1, 5, 6, 7, 8, 9, 20, 21]), (''pm25'', ?p)]"
  let ?v = "\<lambda>j. ?vs ! j"
  have h1: "map_of ?F ''pm25'' = Some ?p" by simp
  have h2: "\<not> list_ex is_date ?p" by (simp add: is_date_def)
  have i3: "{8 + 1 - 3..8} = {6, 7, 8 :: nat}" by auto
  have i7: "{8 + 1 - 7..8} = {2, 3, 4, 5, 6, 7, 8 :: nat}" by auto
  have w3: "\<forall>j\<in>{8 + 1 - 3..8}. ?p ! j = FloatV (?v j)" unfolding i3 by simp
  have w7: "\<forall>j\<in>{8 + 1 - 7..8}. ?p ! j = FloatV (?v j)" unfolding i7 by simp
  have m3: "py_round ((\<Sum>j = 8 + 1 - 3..8. ?v j) / 3) 1 = 17.3"
    unfolding i3 by (simp add: py_round_def round_half_even_def Let_def)
  have m7: "py_round ((\<Sum>j = 8 + 1 - 7..8. ?v j) / 7) 1 = 15.1"
    unfolding i7 by (simp add: py_round_def round_half_even_def Let_def)
  have a: "\<exists>df' r3 r7.
      add_rolling_averages ?F = Inr df' \<and>
      map_of df' ''pm25_rolling_3'' = Some r3 \<and> map_of df' ''pm25_rolling_7'' = Some r7 \<and>
      r3 ! 8 = FloatV 17.3 \<and> r7 ! 8 = FloatV 15.1"
    using rolling_averages_windowed_mean[of ?F ?p 8 ?v, OF h1 h2] w3 w7
    unfolding m3 m7
    apply (simp del: One_nat_def)
    apply (elim exE conjE)
    apply (intro exI conjI)
        apply assumption+
    done
  have b: "\<exists>df' r3 r7.
      add_rolling_averages ?F = Inr df' \<and>
      map_of df' ''pm25_rolling_3'' = Some r3 \<and> map_of df' ''pm25_rolling_7'' = Some r7 \<and>
      r3 ! 1 = NaN"
    using rolling_averages_windowed_mean[of ?F ?p 1 ?v, OF h1 h2]
    apply (simp del: One_nat_def)
    apply (elim exE conjE)
    apply (intro exI conjI)
       apply assumption+
    done
  have c: "\<exists>df' r3 r7.
      add_rolling_averages ?F = Inr df' \<and>
      map_of df' ''pm25_rolling_3'' = Some r3 \<and> map_of df' ''pm25_rolling_7'' = Some r7 \<and>
      r7 ! 5 = NaN"
    using rolling_averages_windowed_mean[of ?F ?p 5 ?v, OF h1 h2]
    apply (simp del: One_nat_def)
    apply (elim exE conjE)
    apply (intro exI conjI)
       apply assumption+
    done
  from a b c show ?thesis by (elim exE conjE) simp
qed

section \<open>The chronological split\<close>

lemma split_index_floor: "split_index n = nat \<lfloor>real n * (1 - TEST_SIZE)\<rfloor>"
  by (simp add: split_index_def py_int_def TEST_SIZE_def)

lemma split_index_le: "split_index n \<le> n"
  unfolding split_index_eq by simp

lemma nrows_iloc_to:
  "list_all (\<lambda>(name, s). length s = N) X \<Longrightarrow> nrows X = N \<Longrightarrow> k \<le> N \<Longrightarrow>
   nrows (iloc_to X k) = k"
  by (cases X) (auto simp: nrows_def iloc_to_def)

lemma nrows_iloc_from:
  "list_all (\<lambda>(name, s). length s = N) X \<Longrightarrow> nrows X = N \<Longrightarrow>
   nrows (iloc_from X k) = N - k"
  by (cases X) (auto simp: nrows_def iloc_from_def)

lemma row_iloc_to: "i < k \<Longrightarrow> row (iloc_to X k) i = row X i"
  by (simp add: row_def iloc_to_def comp_def case_prod_unfold)

lemma row_iloc_from:
  assumes "list_all (\<lambda>(name, s). length s = N) X" and "k + j < N"
  shows "row (iloc_from X k) j = row X (k + j)"
proof -
  have "\<And>c. c \<in> set X \<Longrightarrow> drop k (snd c) ! j = snd c ! (k + j)"
    using assms by (auto simp: list_all_iff)
  then show ?thesis
    by (simp add: row_def iloc_from_def comp_def case_prod_unfold)
qed

text \<open>
  C6: for a dataset of \<open>N\<close> rows, \<open>chronological_split\<close> cuts at
  \<open>k = floor (N * (1 - TEST_SIZE))\<close>: the training part is rows 0 to \<open>k - 1\<close> and the test part
  the remaining rows, each in the original order and with the original columns, and the
  target is cut at the same place. So when row \<open>i\<close> of the dataset belongs to date
  \<open>ds ! i\<close> and the dates increase strictly, every training row's date is earlier than
  every test row's date.
\<close>

theorem chronological_split_partition:
  assumes "list_all (\<lambda>(name, s). length s = N) X" and "nrows X = N"
    and "length y = N" and "length ds = N" and "sorted_wrt (<) (ds :: int list)"
    and "k = nat \<lfloor>real N * (1 - TEST_SIZE)\<rfloor>"
  shows "case chronological_split X y of (X_train, X_test, y_train, y_test) \<Rightarrow>
           k \<le> N \<and>
           map fst X_train = map fst X \<and> map fst X_test = map fst X \<and>
           nrows X_train = k \<and> nrows X_test = N - k \<and>
           (\<forall>i<k. row X_train i = row X i) \<and>
           (\<forall>j<N - k. row X_test j = row X (k + j)) \<and>
           y_train = take k y \<and> y_test = drop k y \<and>
           (\<forall>i<k. \<forall>j<N - k. ds ! i < ds ! (k + j))"
proof -
  have k: "split_index (nrows X) = k"
    using assms(2,6) by (simp add: split_index_floor)
  have le: "k \<le> N" using k split_index_le[of N] assms(2) by simp
  have dates: "\<forall>i<k. \<forall>j<N - k. ds ! i < ds ! (k + j)"
    using assms(4,5) by (auto simp: sorted_wrt_iff_nth_less)
  have rows: "\<forall>j<N - k. row (iloc_from X k) j = row X (k + j)"
    using row_iloc_from[OF assms(1)] by auto
  have names: "map fst (iloc_to X k) = map fst X" "map fst (iloc_from X k) = map fst X"
    by (simp_all add: iloc_to_def iloc_from_def comp_def case_prod_unfold)
  show ?thesis
    unfolding chronological_split_def Let_def k
    using le dates rows names nrows_iloc_to[OF assms(1,2) le] nrows_iloc_from[OF assms(1,2)]
    by (simp add: row_iloc_to)
qed

theorem chronological_split_partition_witness:
  "case chronological_split
          [(''pm25'', map FloatV [10, 20, 30, 40, 50]), (''month'', map IntV [1, 1, 1, 2, 2])]
          (map FloatV [20, 30, 40, 50, 60])
   of (X_train, X_test, y_train, y_test) \<Rightarrow>
     nrows X_train = 4 \<and> nrows X_test = 1 \<and>
     row X_train 3 = [FloatV 40, IntV 2] \<and> row X_test 0 = [FloatV 50, IntV 2] \<and>
     y_train = map FloatV [20, 30, 40, 50] \<and> y_test = [FloatV 60] \<and>
     [19000, 19001, 19002, 19005, 19009] ! 3 < [19000, 19001, 19002, 19005, 19009 :: int] ! 4"
proof -
  let ?X = "[(''pm25'', map FloatV [10, 20, 30, 40, 50]), (''month'', map IntV [1, 1, 1, 2, 2])]"
  let ?y = "map FloatV [20, 30, 40, 50, 60]"
  let ?ds = "[19000, 19001, 19002, 19005, 19009] :: int list"
  have h1: "list_all (\<lambda>(name, s). length s = 5) ?X" by simp
  have h2: "nrows ?X = 5" by (simp add: nrows_def)
  have h3: "length ?y = 5" by simp
  have h4: "length ?ds = 5" by simp
  have h5: "sorted_wrt (<) ?ds" by simp
  have h6: "(4::nat) = nat \<lfloor>real 5 * (1 - TEST_SIZE)\<rfloor>" by (simp add: TEST_SIZE_def)
  show ?thesis
    using chronological_split_partition[OF h1 h2 h3 h4 h5 h6]
    by (auto simp: row_def)
qed

section \<open>The dataset assembler\<close>

lemma filter_upt_interval:
  assumes "b \<le> n"
  shows "filter (\<lambda>i. a \<le> i \<and> i < b) [0..<n] = [a..<b]"
proof (rule sorted_distinct_set_unique)
  show "sorted (filter (\<lambda>i. a \<le> i \<and> i < b) [0..<n])" by (simp add: sorted_wrt_filter)
  show "set (filter (\<lambda>i. a \<le> i \<and> i < b) [0..<n]) = set [a..<b]" using assms by auto
qed simp_all

lemma map_nth_interval:
  assumes "length s = n" and "8 \<le> n"
  shows "map (\<lambda>i. s ! i) [7..<n - 1] = butlast (drop 7 s)"
  by (rule nth_equalityI) (use assms in \<open>auto simp: nth_butlast\<close>)

lemma rolled_isna:
  assumes "i < length vs" and "0 < w"
  shows "isna (round_series 1 (map (window_mean w (map FloatV vs)) [0..<length vs]) ! i)
           = (i + 1 < w)"
proof (cases "i + 1 < w")
  case True
  then have "window_mean w (map FloatV vs) i = NaN" by (rule window_mean_short)
  then show ?thesis
    using True assms(1) nth_rounded_window_NaN[of i "map FloatV vs" w 1]
    by (simp add: isna_def del: upt_Suc One_nat_def)
next
  case False
  then have "window_mean w (map FloatV vs) i =
      FloatV ((\<Sum>j = i + 1 - w..i. vs ! j) / real w)"
    using assms(1) by (intro window_mean_defined) auto
  then show ?thesis
    using False assms(1) nth_rounded_window_Float[of i "map FloatV vs" w _ 1]
    by (simp add: isna_def del: upt_Suc One_nat_def)
qed

lemma shifted_down_isna:
  "i < length vs \<Longrightarrow> isna (shift (int k) (map FloatV vs) ! i) = (i < k)"
  by (auto simp: isna_def nth_shift_down)

lemma shifted_up_isna:
  "i < length vs \<Longrightarrow> isna (shift (- int k) (map FloatV vs) ! i) = (length vs \<le> i + k)"
  by (auto simp: isna_def nth_shift_up)

lemma add_target_result:
  "map_of df ''pm25'' = Some p \<Longrightarrow>
   add_target df = Inr (setitem df ''pm25_next_day'' (shift (- 1) p))"
  by (simp add: add_target_def getitem_def TARGET_COLUMN_def)

lemma no_date_in_floats: "\<not> list_ex is_date (map FloatV vs)"
  by (simp add: list_ex_iff is_date_def)

lemma add_all_features_columns:
  assumes "map_of df ''date'' = Some (map DateV ds)"
    and "map_of df ''pm25'' = Some p" and "p = map FloatV vs"
  shows "\<exists>full. add_all_features df = Inr full \<and>
           map_of full ''pm25'' = Some p \<and>
           map_of full ''pm25_lag_1'' = Some (shift 1 p) \<and>
           map_of full ''pm25_lag_2'' = Some (shift 2 p) \<and>
           map_of full ''pm25_lag_7'' = Some (shift 7 p) \<and>
           map_of full ''pm25_rolling_3'' =
             Some (round_series 1 (map (window_mean 3 p) [0..<length p])) \<and>
           map_of full ''pm25_rolling_7'' =
             Some (round_series 1 (map (window_mean 7 p) [0..<length p])) \<and>
           map_of full ''day_of_week'' = Some (map (\<lambda>d. IntV (dayofweek (d + 1))) ds) \<and>
           map_of full ''month'' = Some (map (\<lambda>d. IntV (month_of (d + 1))) ds) \<and>
           map_of full ''pm25_next_day'' = Some (shift (- 1) p)"
proof -
  define df1 where "df1 = setitem (setitem (setitem df ''pm25_lag_1'' (shift 1 p))
      ''pm25_lag_2'' (shift 2 p)) ''pm25_lag_7'' (shift 7 p)"
  define df2 where "df2 = setitem (setitem df1 ''pm25_rolling_3''
      (round_series 1 (map (window_mean 3 p) [0..<length p])))
      ''pm25_rolling_7'' (round_series 1 (map (window_mean 7 p) [0..<length p]))"
  define df3 where "df3 = setitem (setitem df2 ''day_of_week''
      (map (\<lambda>d. IntV (dayofweek (d + 1))) ds)) ''month'' (map (\<lambda>d. IntV (month_of (d + 1))) ds)"
  define df4 where "df4 = setitem df3 ''pm25_next_day'' (shift (- 1) p)"
  have s1: "add_lag_features df = Inr df1"
    unfolding df1_def by (rule add_lag_features_result[OF assms(2)])
  have p1: "map_of df1 ''pm25'' = Some p" and d1: "map_of df1 ''date'' = Some (map DateV ds)"
    using assms(1,2) by (simp_all add: df1_def map_of_setitem)
  have nd: "\<not> list_ex is_date p" unfolding assms(3) by (rule no_date_in_floats)
  have s2: "add_rolling_averages df1 = Inr df2"
    unfolding df2_def by (rule add_rolling_averages_result[OF p1 nd])
  have p2: "map_of df2 ''pm25'' = Some p" and d2: "map_of df2 ''date'' = Some (map DateV ds)"
    using p1 d1 by (simp_all add: df2_def map_of_setitem)
  have s3: "add_calendar_features df2 = Inr df3"
    unfolding df3_def by (rule add_calendar_features_result[OF d2])
  have p3: "map_of df3 ''pm25'' = Some p"
    using p2 by (simp add: df3_def map_of_setitem)
  have s4: "add_target df3 = Inr df4"
    unfolding df4_def by (rule add_target_result[OF p3])
  have run: "add_all_features df = Inr df4"
    by (simp add: add_all_features_def s1 s2 s3 s4)
  have l1: "map_of df1 ''pm25_lag_1'' = Some (shift 1 p)"
    and l2: "map_of df1 ''pm25_lag_2'' = Some (shift 2 p)"
    and l7: "map_of df1 ''pm25_lag_7'' = Some (shift 7 p)"
    by (simp_all add: df1_def map_of_setitem)
  have l1': "map_of df2 ''pm25_lag_1'' = Some (shift 1 p)"
    and l2': "map_of df2 ''pm25_lag_2'' = Some (shift 2 p)"
    and l7': "map_of df2 ''pm25_lag_7'' = Some (shift 7 p)"
    using l1 l2 l7 by (simp_all add: df2_def map_of_setitem)
  have r3: "map_of df2 ''pm25_rolling_3'' =
      Some (round_series 1 (map (window_mean 3 p) [0..<length p]))"
    and r7: "map_of df2 ''pm25_rolling_7'' =
      Some (round_series 1 (map (window_mean 7 p) [0..<length p]))"
    by (simp_all add: df2_def map_of_setitem)
  have c3: "map_of df3 ''pm25_lag_1'' = Some (shift 1 p)"
    "map_of df3 ''pm25_lag_2'' = Some (shift 2 p)"
    "map_of df3 ''pm25_lag_7'' = Some (shift 7 p)"
    "map_of df3 ''pm25_rolling_3'' = Some (round_series 1 (map (window_mean 3 p) [0..<length p]))"
    "map_of df3 ''pm25_rolling_7'' = Some (round_series 1 (map (window_mean 7 p) [0..<length p]))"
    using l1' l2' l7' r3 r7 by (simp_all add: df3_def map_of_setitem)
  have c3': "map_of df3 ''day_of_week'' = Some (map (\<lambda>d. IntV (dayofweek (d + 1))) ds)"
    "map_of df3 ''month'' = Some (map (\<lambda>d. IntV (month_of (d + 1))) ds)"
    by (simp_all add: df3_def map_of_setitem)
  have c4: "map_of df4 ''pm25'' = Some p"
    "map_of df4 ''pm25_lag_1'' = Some (shift 1 p)"
    "map_of df4 ''pm25_lag_2'' = Some (shift 2 p)"
    "map_of df4 ''pm25_lag_7'' = Some (shift 7 p)"
    "map_of df4 ''pm25_rolling_3'' = Some (round_series 1 (map (window_mean 3 p) [0..<length p]))"
    "map_of df4 ''pm25_rolling_7'' = Some (round_series 1 (map (window_mean 7 p) [0..<length p]))"
    "map_of df4 ''day_of_week'' = Some (map (\<lambda>d. IntV (dayofweek (d + 1))) ds)"
    "map_of df4 ''month'' = Some (map (\<lambda>d. IntV (month_of (d + 1))) ds)"
    "map_of df4 ''pm25_next_day'' = Some (shift (- 1) p)"
    using p3 c3 c3' by (simp_all add: df4_def map_of_setitem)
  show ?thesis using run c4 by (intro exI[of _ df4] conjI)
qed

text \<open>A series of nine days run through the whole pipeline: one sample is left.\<close>

lemma pipeline_example:
  "(case add_all_features
      [(''date'', map DateV [20080, 20081, 20082, 20083, 20084, 20085, 20086, 20087, 20088]),
       (''pm25'', map FloatV [10, 11, 12, 13, 14, 15, 16, 17, 19])]
    of Inl e \<Rightarrow> Inl e | Inr full \<Rightarrow> clean_and_save full) =
   Inr [(''pm25'', [FloatV 17]), (''pm25_lag_1'', [FloatV 16]), (''pm25_lag_2'', [FloatV 15]),
        (''pm25_lag_7'', [FloatV 10]), (''pm25_rolling_3'', [FloatV 16]),
        (''pm25_rolling_7'', [FloatV 14]), (''day_of_week'', [IntV 1]), (''month'', [IntV 12]),
        (''pm25_next_day'', [FloatV 19])]"
  by code_simp

text \<open>
  C5: row dropping is exact. For a daily frame of \<open>N\<close> rows, \<open>N\<close> at least 8 and so in
  particular at least 9, with every date and every \<open>pm25\<close> value present, the feature steps
  succeed and \<open>clean_and_save\<close> returns the feature and target columns, in the configured
  order, each without its first 7 rows and its last row and with every other row kept in
  order: row \<open>j\<close> of the result is row \<open>j + 7\<close> of the series.
\<close>

theorem clean_and_save_drops_first_seven_and_last:
  assumes "map_of df ''date'' = Some (map DateV ds)"
    and "map_of df ''pm25'' = Some (map FloatV vs)"
    and "length ds = N" and "length vs = N" and "8 \<le> N"
  shows "\<exists>full out.
           add_all_features df = Inr full \<and> clean_and_save full = Inr out \<and>
           map fst out = FEATURE_COLUMNS @ [TARGET_COLUMN] \<and>
           nrows out = N - 8 \<and>
           (\<forall>c\<in>set (FEATURE_COLUMNS @ [TARGET_COLUMN]).
              \<exists>s. map_of full c = Some s \<and> length s = N \<and>
                  map_of out c = Some (butlast (drop 7 s))) \<and>
           (\<forall>j<N - 8.
              cell_at out ''pm25'' j = Some (FloatV (vs ! (j + 7))) \<and>
              cell_at out ''pm25_lag_7'' j = Some (FloatV (vs ! j)) \<and>
              cell_at out ''pm25_next_day'' j = Some (FloatV (vs ! (j + 8))))"
proof -
  define p where "p = map FloatV vs"
  define r3 where "r3 = round_series 1 (map (window_mean 3 p) [0..<length p])"
  define r7 where "r7 = round_series 1 (map (window_mean 7 p) [0..<length p])"
  define dow where "dow = map (\<lambda>d. IntV (dayofweek (d + 1))) ds"
  define mon where "mon = map (\<lambda>d. IntV (month_of (d + 1))) ds"
  define kept where "kept =
    [(''pm25'', p), (''pm25_lag_1'', shift 1 p), (''pm25_lag_2'', shift 2 p),
     (''pm25_lag_7'', shift 7 p), (''pm25_rolling_3'', r3), (''pm25_rolling_7'', r7),
     (''day_of_week'', dow), (''month'', mon), (''pm25_next_day'', shift (- 1) p)]"
  define cut where "cut = (\<lambda>s :: series. butlast (drop 7 s))"
  define out where "out = map (\<lambda>(name, s). (name, cut s)) kept"
  have lp: "length p = N" using assms(4) by (simp add: p_def)
  from add_all_features_columns[OF assms(1) assms(2)[folded p_def] p_def]
  obtain full where run: "add_all_features df = Inr full"
    and c0: "map_of full ''pm25'' = Some p"
    and c1: "map_of full ''pm25_lag_1'' = Some (shift 1 p)"
    and c2: "map_of full ''pm25_lag_2'' = Some (shift 2 p)"
    and c3: "map_of full ''pm25_lag_7'' = Some (shift 7 p)"
    and c4: "map_of full ''pm25_rolling_3'' = Some r3"
    and c5: "map_of full ''pm25_rolling_7'' = Some r7"
    and c6: "map_of full ''day_of_week'' = Some dow"
    and c7: "map_of full ''month'' = Some mon"
    and c8: "map_of full ''pm25_next_day'' = Some (shift (- 1) p)"
    unfolding r3_def r7_def dow_def mon_def by (elim exE conjE)
  have sel: "select full (FEATURE_COLUMNS @ [TARGET_COLUMN]) = Inr kept"
    by (simp add: select_def FEATURE_COLUMNS_def TARGET_COLUMN_def kept_def
        c0 c1 c2 c3 c4 c5 c6 c7 c8)
  have nr: "nrows kept = N" by (simp add: nrows_def kept_def lp)
  have lens: "length r3 = N" "length r7 = N" "length dow = N" "length mon = N"
    using assms(3) lp by (simp_all add: r3_def r7_def dow_def mon_def round_series_def)
  have complete: "list_all (\<lambda>(name, s). \<not> isna (s ! i)) kept = (7 \<le> i \<and> i < N - 1)"
    if "i < N" for i
  proof -
    have i: "i < length vs" using that assms(4) by simp
    have "\<not> isna (p ! i)" using i by (simp add: p_def isna_def)
    moreover have "isna (shift 1 p ! i) = (i < 1)"
      using shifted_down_isna[OF i, of 1] by (simp add: p_def)
    moreover have "isna (shift 2 p ! i) = (i < 2)"
      using shifted_down_isna[OF i, of 2] by (simp add: p_def)
    moreover have "isna (shift 7 p ! i) = (i < 7)"
      using shifted_down_isna[OF i, of 7] by (simp add: p_def)
    moreover have "isna (r3 ! i) = (i + 1 < 3)"
      using rolled_isna[OF i, of 3] by (simp add: r3_def p_def del: upt_Suc One_nat_def)
    moreover have "isna (r7 ! i) = (i + 1 < 7)"
      using rolled_isna[OF i, of 7] by (simp add: r7_def p_def del: upt_Suc One_nat_def)
    moreover have "\<not> isna (dow ! i)" "\<not> isna (mon ! i)"
      using that assms(3) by (simp_all add: dow_def mon_def isna_def)
    moreover have "isna (shift (- 1) p ! i) = (N \<le> i + 1)"
      using shifted_up_isna[OF i, of 1] assms(4) by (simp add: p_def)
    ultimately show ?thesis by (simp add: kept_def) arith
  qed
  have keep: "filter (\<lambda>i. list_all (\<lambda>(name, s). \<not> isna (s ! i)) kept) [0..<nrows kept]
      = [7..<N - 1]"
  proof -
    have "filter (\<lambda>i. list_all (\<lambda>(name, s). \<not> isna (s ! i)) kept) [0..<N]
        = filter (\<lambda>i. 7 \<le> i \<and> i < N - 1) [0..<N]"
      by (rule filter_cong[OF refl]) (simp add: complete)
    then show ?thesis unfolding nr by (simp add: filter_upt_interval)
  qed
  have cuts: "map (\<lambda>i. s ! i) [7..<N - 1] = cut s" if "length s = N" for s :: series
    unfolding cut_def using that assms(5) by (rule map_nth_interval)
  have cuts': "map ((!) s) [7..<N - Suc 0] = cut s" if "length s = N" for s :: series
    using cuts[OF that] by simp
  have lsh: "length (shift k p) = N" for k by (simp add: length_shift lp)
  have dn: "dropna kept = out"
    unfolding dropna_def Let_def keep
    by (simp add: kept_def out_def cuts' lp lens lsh)
  have cs: "clean_and_save full = Inr out"
    by (simp add: clean_and_save_def sel dn)
  have names: "map fst out = FEATURE_COLUMNS @ [TARGET_COLUMN]"
    by (simp add: out_def kept_def FEATURE_COLUMNS_def TARGET_COLUMN_def)
  have lcut: "length (cut s) = N - 8" if "length s = N" for s :: series
    using that by (simp add: cut_def)
  have nro: "nrows out = N - 8" by (simp add: nrows_def out_def kept_def lcut lp)
  have cols: "\<forall>c\<in>set (FEATURE_COLUMNS @ [TARGET_COLUMN]).
      \<exists>s. map_of full c = Some s \<and> length s = N \<and> map_of out c = Some (butlast (drop 7 s))"
    by (simp add: FEATURE_COLUMNS_def TARGET_COLUMN_def out_def kept_def cut_def
        c0 c1 c2 c3 c4 c5 c6 c7 c8 lp lens lsh)
  have cells: "cell_at out ''pm25'' j = Some (FloatV (vs ! (j + 7))) \<and>
      cell_at out ''pm25_lag_7'' j = Some (FloatV (vs ! j)) \<and>
      cell_at out ''pm25_next_day'' j = Some (FloatV (vs ! (j + 8)))" if "j < N - 8" for j
  proof -
    have a: "cut p ! j = FloatV (vs ! (j + 7))"
      using that lp assms(4) by (simp add: cut_def nth_butlast p_def add.commute)
    have "cut (shift 7 p) ! j = shift 7 p ! (j + 7)"
      using that lsh[of 7] by (simp add: cut_def nth_butlast add.commute)
    also have "\<dots> = FloatV (vs ! j)"
      using that lp assms(4) nth_shift_down[of "j + 7" p 7] by (simp add: p_def)
    finally have b: "cut (shift 7 p) ! j = FloatV (vs ! j)" .
    have "cut (shift (- 1) p) ! j = shift (- 1) p ! (j + 7)"
      using that lsh[of "- 1"] by (simp add: cut_def nth_butlast add.commute)
    also have "\<dots> = FloatV (vs ! (j + 8))"
    proof -
      have j8: "j + 7 < length p" "j + 7 + 1 < length p" "j + 7 + 1 = j + 8"
        using that lp by simp_all
      have "shift (- int 1) p ! (j + 7) = p ! (j + 7 + 1)"
        using nth_shift_up[OF j8(1), of 1] j8(2) by (simp del: One_nat_def)
      then show ?thesis using j8 lp assms(4) by (simp add: p_def add.commute)
    qed
    finally have c: "cut (shift (- 1) p) ! j = FloatV (vs ! (j + 8))" .
    show ?thesis
      using that a b c by (simp add: cell_at_def out_def kept_def lcut lp lsh)
  qed
  show ?thesis
    using run cs names nro cols cells by (intro exI[of _ full] exI[of _ out] conjI) auto
qed

theorem clean_and_save_drops_first_seven_and_last_witness:
  "\<exists>full out.
     add_all_features
       [(''date'', map DateV [20080, 20081, 20082, 20083, 20084, 20085, 20086, 20087, 20088]),
        (''pm25'', map FloatV [10, 11, 12, 13, 14, 15, 16, 17, 19])] = Inr full \<and>
     clean_and_save full = Inr out \<and>
     nrows out = 1 \<and>
     cell_at out ''pm25'' 0 = Some (FloatV 17) \<and>
     cell_at out ''pm25_lag_7'' 0 = Some (FloatV 10) \<and>
     cell_at out ''pm25_next_day'' 0 = Some (FloatV 19)"
  using clean_and_save_drops_first_seven_and_last[of
      "[(''date'', map DateV [20080, 20081, 20082, 20083, 20084, 20085, 20086, 20087, 20088]),
        (''pm25'', map FloatV [10, 11, 12, 13, 14, 15, 16, 17, 19])]"
      "[20080, 20081, 20082, 20083, 20084, 20085, 20086, 20087, 20088]"
      "[10, 11, 12, 13, 14, 15, 16, 17, 19]" 9]
  apply simp
  apply (elim exE conjE)
  apply (intro exI conjI)
       apply assumption+
  done

section \<open>Agreement of the training and the serving features\<close>

lemma map_fst_dropna: "map fst (dropna df) = map fst df"
  by (simp add: dropna_def Let_def comp_def case_prod_unfold)

lemma clean_and_save_names:
  "clean_and_save df = Inr out \<Longrightarrow> map fst out = FEATURE_COLUMNS @ [TARGET_COLUMN]"
  by (auto simp: clean_and_save_def select_def Let_def map_fst_dropna comp_def
      split: sum.splits if_splits)

lemma map_of_present: "c \<in> set (map fst df) \<Longrightarrow> \<exists>s. map_of df c = Some s"
  by (metis list.set_map map_of_eq_None_iff not_None_eq)

lemma select_present:
  "\<forall>c\<in>set names. map_of df c \<noteq> None \<Longrightarrow>
   select df names = Inr (map (\<lambda>c. (c, the (map_of df c))) names)"
  by (simp add: select_def filter_empty_conv)

text \<open>
  C1: the feature order is the same offline and online. Take a frame \<open>clean_and_save\<close>
  returned and a request whose attribute under each name of \<open>FEATURE_COLUMNS\<close> is the cell of
  row \<open>i\<close> in the column of that name. Then the trainer's feature frame has exactly the
  columns \<open>FEATURE_COLUMNS\<close> in that order, and its row \<open>i\<close>, read as floats, is position
  for position the feature vector \<open>predict\<close> assembles from the request.
\<close>

theorem train_serve_feature_order:
  assumes "clean_and_save df = Inr out"
    and "\<forall>c\<in>set FEATURE_COLUMNS. cell_at out c i = request_attr request c"
  shows "\<exists>X y. load_data out = Inr (X, y) \<and>
           map fst X = FEATURE_COLUMNS \<and>
           map to_float (row X i) = map Some (features request)"
proof -
  have attr: "request_attr request c \<noteq> None" if "c \<in> set FEATURE_COLUMNS" for c
    using that by (auto simp: FEATURE_COLUMNS_def request_attr_def)
  have present: "\<forall>c\<in>set FEATURE_COLUMNS. map_of out c \<noteq> None"
  proof
    fix c assume c: "c \<in> set FEATURE_COLUMNS"
    then have "cell_at out c i \<noteq> None" using assms(2) attr by simp
    then show "map_of out c \<noteq> None" by (auto simp: cell_at_def split: option.splits)
  qed
  define X where "X = map (\<lambda>c. (c, the (map_of out c))) FEATURE_COLUMNS"
  have sel: "select out FEATURE_COLUMNS = Inr X"
    unfolding X_def by (rule select_present[OF present])
  have "TARGET_COLUMN \<in> set (map fst out)"
    unfolding clean_and_save_names[OF assms(1)] by simp
  then have "\<exists>s. map_of out TARGET_COLUMN = Some s" by (rule map_of_present)
  then obtain y where y: "map_of out TARGET_COLUMN = Some y" ..
  have ld: "load_data out = Inr (X, y)"
    by (simp add: load_data_def sel getitem_def y)
  have names: "map fst X = FEATURE_COLUMNS"
    by (simp add: X_def comp_def)
  have cell: "to_float (the (map_of out c) ! i) = to_float (the (request_attr request c))"
    if c: "c \<in> set FEATURE_COLUMNS" for c
  proof -
    have "cell_at out c i = request_attr request c" using assms(2) c by simp
    moreover obtain v where "request_attr request c = Some v" using attr[OF c] by auto
    ultimately show ?thesis
      by (auto simp: cell_at_def split: option.splits if_splits)
  qed
  have "map to_float (row X i) =
      map (\<lambda>c. to_float (the (request_attr request c))) FEATURE_COLUMNS"
    unfolding row_def X_def map_map comp_def
    by (rule map_cong[OF refl]) (simp add: cell)
  also have "\<dots> = map Some (features request)"
    by (simp add: FEATURE_COLUMNS_def request_attr_def features_def to_float_def)
  finally have "load_data out = Inr (X, y) \<and> map fst X = FEATURE_COLUMNS \<and>
      map to_float (row X i) = map Some (features request)"
    using ld names by (intro conjI)
  then show ?thesis by (intro exI)
qed

theorem train_serve_feature_order_witness:
  "\<exists>X y. load_data
       [(''pm25'', [FloatV 17]), (''pm25_lag_1'', [FloatV 16]), (''pm25_lag_2'', [FloatV 15]),
        (''pm25_lag_7'', [FloatV 10]), (''pm25_rolling_3'', [FloatV 16]),
        (''pm25_rolling_7'', [FloatV 14]), (''day_of_week'', [IntV 1]), (''month'', [IntV 12]),
        (''pm25_next_day'', [FloatV 19])] = Inr (X, y) \<and>
     map to_float (row X 0) = map Some [17, 16, 15, 10, 16, 14, 1, 12]"
proof -
  let ?out = "[(''pm25'', [FloatV 17]), (''pm25_lag_1'', [FloatV 16]), (''pm25_lag_2'', [FloatV 15]),
        (''pm25_lag_7'', [FloatV 10]), (''pm25_rolling_3'', [FloatV 16]),
        (''pm25_rolling_7'', [FloatV 14]), (''day_of_week'', [IntV 1]), (''month'', [IntV 12]),
        (''pm25_next_day'', [FloatV 19])]"
  let ?df = "(''date'', [DateV 20087]) # ?out"
  let ?req = "\<lparr>pm25 = 17, pm25_lag_1 = 16, pm25_lag_2 = 15, pm25_lag_7 = 10,
      pm25_rolling_3 = 16, pm25_rolling_7 = 14, day_of_week = 1, month = 12\<rparr>"
  have h1: "clean_and_save ?df = Inr ?out" by code_simp
  have h2: "\<forall>c\<in>set FEATURE_COLUMNS. cell_at ?out c 0 = request_attr ?req c"
    by (simp add: FEATURE_COLUMNS_def cell_at_def request_attr_def)
  have f: "features ?req = [17, 16, 15, 10, 16, 14, 1, 12]"
    by (simp add: features_def)
  show ?thesis
    using train_serve_feature_order[OF h1 h2] unfolding f
    apply (elim exE conjE)
    apply (intro exI conjI)
     apply assumption+
    done
qed

end
